theory Spec2Isabelle
  imports Main
begin

section \<open>The TCP log transport of \<^verbatim>\<open>src/TcpTransport.ts\<close>\<close>

text \<open>
  The class \<^verbatim>\<open>TcpTransport\<close> is embedded as a record of its private fields and one
  function per method or event handler, each taking the transport and returning the
  updated one. The JavaScript event loop runs every handler to completion, so a run of
  the program is a sequence of handler invocations.

  The numbers of the configuration are JavaScript numbers, that is doubles; a
  configuration is taken to hold integers that doubles represent, and these are modelled
  as integers (\<open>maxRetries\<close> may be \<open>-1\<close>). \<open>retryCount\<close> starts at \<open>0\<close> and is only
  incremented or reset, so it is a natural number (doubles count exactly up to
  \<open>2 ^ 53\<close>, more timer callbacks than a process lives to see). The one number the class
  computes, \<^verbatim>\<open>Math.min(retryDelay * 2 ** retryCount, maxBackoff)\<close>, is computed as
  the doubles compute it, in the type \<open>number\<close> below: it can be an infinity or
  \<^verbatim>\<open>NaN\<close>.

  What the class cannot decide itself is supplied by an environment: whether the next
  \<^verbatim>\<open>socket.write\<close> throws, and whether \<^verbatim>\<open>socket.connect\<close> throws. Both are
  functions of the number of earlier attempts, counted in the fields \<open>writes\<close> and
  \<open>connects\<close>. What the class does to the outside is recorded in further fields:
  \<open>events\<close> (the arguments of \<^verbatim>\<open>this.emit\<close>, in order), \<open>wire\<close> (the messages
  \<^verbatim>\<open>socket.write\<close> accepted, in order), \<open>immediates\<close> (the callbacks queued with
  \<^verbatim>\<open>setImmediate\<close>), \<open>callbacks\<close> (how often the \<^verbatim>\<open>callback\<close> argument of
  \<^verbatim>\<open>log\<close> was called) and \<open>flushes\<close> (how often \<^verbatim>\<open>_flushBuffer\<close> was entered).

  Listeners are assumed to return normally and not to call back into the transport, and
  a listener of \<^verbatim>\<open>'error'\<close> is assumed to be registered (the logger that owns a transport
  registers one): an emitter without one throws the error instead.
\<close>

subsection \<open>Data\<close>

text \<open>\<^verbatim>\<open>info[MESSAGE]\<close>, the formatted text of a log record.\<close>

type_synonym info = string

text \<open>The argument of an \<^verbatim>\<open>'error'\<close> event: the exception \<^verbatim>\<open>socket.write\<close> threw, or
  \<^verbatim>\<open>new Error('Buffer overflow')\<close>.\<close>

datatype error = WriteException | BufferOverflow

text \<open>The values of the arithmetic of \<^verbatim>\<open>_scheduleReconnect\<close>: an integer that a double
  represents, an infinity, or \<^verbatim>\<open>NaN\<close>.\<close>

datatype number = Finite int | Infinity | NegInfinity | NaN

datatype event =
    Connected
  | Disconnected
  | Reconnecting number nat
  | ErrorEvent error
  | Logged info
  | Closed

text \<open>A \<^verbatim>\<open>net.Socket\<close>, as far as the class acts on it.\<close>

record sock =
  keepAlive :: bool
  ended :: bool
  destroyed :: bool

text \<open>A timer handle: its delay, and whether it is still pending (neither fired nor
  cleared).\<close>

record timer =
  delay :: number
  pending :: bool

record options =
  opt_host :: string
  opt_port :: int
  opt_maxRetries :: "int option"
  opt_retryDelay :: "int option"
  opt_maxBackoff :: "int option"
  opt_bufferMax :: "int option"

record transport =
  host :: string
  port :: int
  maxRetries :: int
  retryDelay :: int
  maxBackoff :: int
  bufferMax :: int
  buffer :: "string list"
  retryCount :: nat
  connected :: bool
  closing :: bool
  reconnectTimer :: "timer option"
  socket :: "sock option"
  events :: "event list"
  wire :: "string list"
  immediates :: "info list"
  callbacks :: nat
  flushes :: nat
  writes :: nat
  connects :: nat

record environment =
  write_ok :: "nat \<Rightarrow> bool"
  connect_ok :: "nat \<Rightarrow> bool"

text \<open>\<^verbatim>\<open>os.EOL\<close> on a POSIX host.\<close>

definition EOL :: string where
  "EOL = [CHR 0x0A]"

subsection \<open>Methods\<close>

definition emit :: "event \<Rightarrow> transport \<Rightarrow> transport" where
  "emit e t = t\<lparr>events := events t @ [e]\<rparr>"

text \<open>\<^verbatim>\<open>clearTimeout\<close> on the stored handle, when there is one.\<close>

definition clearTimeout :: "timer option \<Rightarrow> timer option" where
  "clearTimeout h = (case h of None \<Rightarrow> None | Some tm \<Rightarrow> Some (tm\<lparr>pending := False\<rparr>))"

text \<open>The arithmetic of doubles, as far as \<^verbatim>\<open>_scheduleReconnect\<close> uses it.
  \<^verbatim>\<open>2 ** n\<close> is the power of two up to \<open>2 ^ 1023\<close> and \<^verbatim>\<open>Infinity\<close> from
  \<open>n = 1024\<close> on. The product of an integer \<open>r\<close> that a double represents and a power of
  two is exact if it is below \<open>2 ^ 1024\<close> in absolute value (it has the significant bits
  of \<open>r\<close>) and an infinity otherwise; a product with \<open>1\<close> is the other factor; the product
  of \<open>0\<close> and \<^verbatim>\<open>Infinity\<close> is \<^verbatim>\<open>NaN\<close>. \<^verbatim>\<open>Math.min\<close> of \<^verbatim>\<open>NaN\<close> and a number is
  \<^verbatim>\<open>NaN\<close>.\<close>

definition pow2 :: "nat \<Rightarrow> number" where
  "pow2 n = (if n < 1024 then Finite (2 ^ n) else Infinity)"

fun multiply :: "int \<Rightarrow> number \<Rightarrow> number" where
  "multiply r (Finite p) =
     (if p = 1 \<or> \<bar>r * p\<bar> < 2 ^ 1024 then Finite (r * p)
      else if 0 < r * p then Infinity else NegInfinity)"
| "multiply r Infinity = (if r = 0 then NaN else if 0 < r then Infinity else NegInfinity)"
| "multiply r NegInfinity = (if r = 0 then NaN else if 0 < r then NegInfinity else Infinity)"
| "multiply r NaN = NaN"

fun Math_min :: "number \<Rightarrow> int \<Rightarrow> number" where
  "Math_min (Finite x) b = Finite (min x b)"
| "Math_min Infinity b = Finite b"
| "Math_min NegInfinity b = NegInfinity"
| "Math_min NaN b = NaN"

text \<open>The constant \<^verbatim>\<open>delay\<close> of \<^verbatim>\<open>_scheduleReconnect\<close>.\<close>

definition reconnect_delay :: "transport \<Rightarrow> number" where
  "reconnect_delay t = Math_min (multiply (retryDelay t) (pow2 (retryCount t))) (maxBackoff t)"

definition scheduleReconnect :: "transport \<Rightarrow> transport" where
  "scheduleReconnect t =
     (if closing t then t
      else if maxRetries t \<ge> 0 \<and> int (retryCount t) \<ge> maxRetries t then t
      else
        let d = reconnect_delay t;
            t0 = t\<lparr>reconnectTimer := clearTimeout (reconnectTimer t)\<rparr>;
            t1 = t0\<lparr>reconnectTimer := Some \<lparr>delay = d, pending = True\<rparr>\<rparr>
        in emit (Reconnecting d (retryCount t1 + 1)) t1)"

text \<open>\<^verbatim>\<open>_connect\<close>: the previous socket is destroyed and loses its listeners, so no later
  event of it reaches the transport; the new socket replaces it.\<close>

definition connect :: "environment \<Rightarrow> transport \<Rightarrow> transport" where
  "connect env t =
     (let t1 = t\<lparr>socket := Some \<lparr>keepAlive = True, ended = False, destroyed = False\<rparr>,
                 connects := connects t + 1\<rparr>
      in if connect_ok env (connects t) then t1 else scheduleReconnect t1)"

definition safeWrite :: "environment \<Rightarrow> string \<Rightarrow> transport \<Rightarrow> transport" where
  "safeWrite env message t =
     (if socket t = None then t
      else if write_ok env (writes t)
      then t\<lparr>wire := wire t @ [message], writes := writes t + 1\<rparr>
      else
        let t1 = emit (ErrorEvent WriteException) (t\<lparr>writes := writes t + 1\<rparr>);
            t2 = (if int (length (buffer t1)) < bufferMax t1
                  then t1\<lparr>buffer := message # buffer t1\<rparr> else t1)
        in scheduleReconnect t2)"

text \<open>\<^verbatim>\<open>_flushBuffer\<close>: the condition of its \<^verbatim>\<open>while\<close> loop, the body of the loop
  (\<^verbatim>\<open>shift\<close> takes the head of a buffer that is not empty; the empty string is the
  one falsy message), and the loop. Nothing bounds the number of its iterations, so it is
  a partial function: \<open>None\<close> is a loop that never ends.\<close>

definition flushCond :: "transport \<Rightarrow> bool" where
  "flushCond t = (buffer t \<noteq> [] \<and> connected t \<and> socket t \<noteq> None)"

definition flushBody :: "environment \<Rightarrow> transport \<Rightarrow> transport" where
  "flushBody env t =
     (let message = hd (buffer t);
          t1 = t\<lparr>buffer := tl (buffer t)\<rparr>
      in if message \<noteq> [] then safeWrite env message t1 else t1)"

partial_function (option) flushLoop :: "environment \<Rightarrow> transport \<Rightarrow> transport option" where
  "flushLoop env t = (if flushCond t then flushLoop env (flushBody env t) else Some t)"

declare flushLoop.simps [code]

definition flushBuffer :: "environment \<Rightarrow> transport \<Rightarrow> transport option" where
  "flushBuffer env t = flushLoop env (t\<lparr>flushes := flushes t + 1\<rparr>)"

definition log :: "environment \<Rightarrow> info \<Rightarrow> transport \<Rightarrow> transport" where
  "log env i t =
     (let t0 = t\<lparr>immediates := immediates t @ [i]\<rparr>;
          message = i @ EOL;
          t1 = (if connected t0 \<and> socket t0 \<noteq> None then safeWrite env message t0
                else if int (length (buffer t0)) \<ge> bufferMax t0
                then emit (ErrorEvent BufferOverflow) t0
                else t0\<lparr>buffer := buffer t0 @ [message]\<rparr>)
      in t1\<lparr>callbacks := callbacks t1 + 1\<rparr>)"

definition close :: "transport \<Rightarrow> transport" where
  "close t =
     (let t1 = t\<lparr>closing := True\<rparr>;
          t2 = (if reconnectTimer t1 \<noteq> None then t1\<lparr>reconnectTimer := None\<rparr> else t1)
      in case socket t2 of
           None \<Rightarrow> t2
         | Some s \<Rightarrow> t2\<lparr>socket := Some (s\<lparr>ended := True\<rparr>)\<rparr>)"

text \<open>The constructor: the defaults of the options, the initial fields, \<^verbatim>\<open>_connect\<close>.\<close>

definition init :: "options \<Rightarrow> transport" where
  "init opts =
     \<lparr>host = opt_host opts, port = opt_port opts,
      maxRetries = (case opt_maxRetries opts of None \<Rightarrow> -1 | Some n \<Rightarrow> n),
      retryDelay = (case opt_retryDelay opts of None \<Rightarrow> 1000 | Some n \<Rightarrow> n),
      maxBackoff = (case opt_maxBackoff opts of None \<Rightarrow> 30000 | Some n \<Rightarrow> n),
      bufferMax = (case opt_bufferMax opts of None \<Rightarrow> 1000 | Some n \<Rightarrow> n),
      buffer = [], retryCount = 0, connected = False, closing = False,
      reconnectTimer = None, socket = None,
      events = [], wire = [], immediates = [], callbacks = 0, flushes = 0,
      writes = 0, connects = 0\<rparr>"

definition constructor :: "environment \<Rightarrow> options \<Rightarrow> transport" where
  "constructor env opts = connect env (init opts)"

subsection \<open>Event handlers\<close>

text \<open>The listeners \<^verbatim>\<open>_connect\<close> registers on the socket, the callback of the
  reconnect timer (a timer that fires is no longer pending; the field still holds its
  handle), the callback of \<^verbatim>\<open>setImmediate\<close> and the callback of \<^verbatim>\<open>socket.end\<close>.\<close>

definition on_connect :: "environment \<Rightarrow> transport \<Rightarrow> transport option" where
  "on_connect env t =
     (case flushBuffer env (t\<lparr>connected := True, retryCount := 0\<rparr>) of
        None \<Rightarrow> None
      | Some t1 \<Rightarrow> Some (emit Connected t1))"

definition on_error :: "transport \<Rightarrow> transport" where
  "on_error t = scheduleReconnect (t\<lparr>connected := False\<rparr>)"

definition on_close :: "transport \<Rightarrow> transport" where
  "on_close t =
     (let t1 = emit Disconnected (t\<lparr>connected := False\<rparr>)
      in if \<not> closing t1 then scheduleReconnect t1 else t1)"

definition destroy :: "sock option \<Rightarrow> sock option" where
  "destroy so = (case so of None \<Rightarrow> None | Some s \<Rightarrow> Some (s\<lparr>destroyed := True\<rparr>))"

definition on_timeout :: "transport \<Rightarrow> transport" where
  "on_timeout t = scheduleReconnect (t\<lparr>socket := destroy (socket t)\<rparr>)"

definition on_timer :: "environment \<Rightarrow> transport \<Rightarrow> transport" where
  "on_timer env t =
     connect env (t\<lparr>reconnectTimer := clearTimeout (reconnectTimer t),
                     retryCount := retryCount t + 1\<rparr>)"

definition on_immediate :: "transport \<Rightarrow> transport" where
  "on_immediate t =
     (case immediates t of
        [] \<Rightarrow> t
      | i # rest \<Rightarrow> emit (Logged i) (t\<lparr>immediates := rest\<rparr>))"

definition on_end :: "transport \<Rightarrow> transport" where
  "on_end t = emit Closed (t\<lparr>socket := destroy (socket t)\<rparr>)"

subsection \<open>Runs\<close>

text \<open>What can happen to a transport between two turns of the event loop. A socket event
  needs a socket, the timer fires only while it is pending, an immediate runs only when
  one is queued; where that is not so the input leaves the transport as it is.\<close>

datatype input =
    Log info
  | Close
  | SocketConnect
  | SocketError
  | SocketClose
  | SocketTimeout
  | TimerFires
  | Immediate
  | SocketEnded

definition timer_pending :: "transport \<Rightarrow> bool" where
  "timer_pending t = (case reconnectTimer t of None \<Rightarrow> False | Some tm \<Rightarrow> pending tm)"

fun step :: "environment \<Rightarrow> input \<Rightarrow> transport \<Rightarrow> transport option" where
  "step env (Log i) t = Some (log env i t)"
| "step env Close t = Some (close t)"
| "step env SocketConnect t = (if socket t = None then Some t else on_connect env t)"
| "step env SocketError t = Some (if socket t = None then t else on_error t)"
| "step env SocketClose t = Some (if socket t = None then t else on_close t)"
| "step env SocketTimeout t = Some (if socket t = None then t else on_timeout t)"
| "step env TimerFires t = Some (if timer_pending t then on_timer env t else t)"
| "step env Immediate t = Some (on_immediate t)"
| "step env SocketEnded t = Some (if socket t = None then t else on_end t)"

fun run :: "environment \<Rightarrow> input list \<Rightarrow> transport \<Rightarrow> transport option" where
  "run env [] t = Some t"
| "run env (x # xs) t = (case step env x t of None \<Rightarrow> None | Some t1 \<Rightarrow> run env xs t1)"

subsection \<open>Auxiliary notions\<close>

text \<open>The records of the \<^verbatim>\<open>logged\<close> notifications among the events, and the records
  passed to \<^verbatim>\<open>log\<close> among the inputs of a run.\<close>

fun loggedInfos :: "event list \<Rightarrow> info list" where
  "loggedInfos [] = []"
| "loggedInfos (Logged i # es) = i # loggedInfos es"
| "loggedInfos (e # es) = loggedInfos es"

fun logInputs :: "input list \<Rightarrow> info list" where
  "logInputs [] = []"
| "logInputs (Log i # xs) = i # logInputs xs"
| "logInputs (x # xs) = logInputs xs"

text \<open>What every transport that the constructor made satisfies, if \<open>bufferMax\<close> is not
  negative: the buffer is within its bound, no buffered message is the empty string
  (\<^verbatim>\<open>log\<close> ends each with \<open>EOL\<close>), and there is a socket.\<close>

definition buffer_ok :: "transport \<Rightarrow> bool" where
  "buffer_ok t = (int (length (buffer t)) \<le> bufferMax t \<and> [] \<notin> set (buffer t) \<and> socket t \<noteq> None)"

text \<open>The fields the loop of \<^verbatim>\<open>_flushBuffer\<close> leaves as they are, and what it adds no
  event of.\<close>

definition same_frame :: "transport \<Rightarrow> transport \<Rightarrow> bool" where
  "same_frame t s =
     (bufferMax s = bufferMax t \<and> maxRetries s = maxRetries t \<and> retryDelay s = retryDelay t \<and>
      maxBackoff s = maxBackoff t \<and> retryCount s = retryCount t \<and> connected s = connected t \<and>
      closing s = closing t \<and> socket s = socket t \<and> immediates s = immediates t \<and>
      callbacks s = callbacks t \<and> flushes s = flushes t \<and> connects s = connects t \<and>
      loggedInfos (events s) = loggedInfos (events t) \<and>
      count_list (events s) Connected = count_list (events t) Connected)"


subsection \<open>Example environments and configurations\<close>

text \<open>An environment where nothing throws, one where every write throws, and one where
  only the first write throws; the configurations of two of the repository's tests.\<close>

definition env_ok :: environment where
  "env_ok = \<lparr>write_ok = (\<lambda>n. True), connect_ok = (\<lambda>n. True)\<rparr>"

definition env_never :: environment where
  "env_never = \<lparr>write_ok = (\<lambda>n. False), connect_ok = (\<lambda>n. True)\<rparr>"

definition env_once :: environment where
  "env_once = \<lparr>write_ok = (\<lambda>n. n \<noteq> 0), connect_ok = (\<lambda>n. True)\<rparr>"

definition opts1 :: options where
  "opts1 = \<lparr>opt_host = ''localhost'', opt_port = 9000, opt_maxRetries = None,
     opt_retryDelay = Some 10, opt_maxBackoff = None, opt_bufferMax = Some 1\<rparr>"

definition opts2 :: options where
  "opts2 = \<lparr>opt_host = ''localhost'', opt_port = 9000, opt_maxRetries = None,
     opt_retryDelay = Some 10, opt_maxBackoff = None, opt_bufferMax = Some 2\<rparr>"

text \<open>The transport after a connection and one \<^verbatim>\<open>log\<close> whose write threw, with
  \<open>bufferMax = 1\<close>: connected, and its buffer full.\<close>

definition full_state :: transport where
  "full_state =
     \<lparr>host = ''localhost'', port = 9000, maxRetries = - 1, retryDelay = 10,
      maxBackoff = 30000, bufferMax = 1, buffer = [''a'' @ EOL], retryCount = 0,
      connected = True, closing = False,
      reconnectTimer = Some \<lparr>delay = Finite 10, pending = True\<rparr>,
      socket = Some \<lparr>keepAlive = True, ended = False, destroyed = False\<rparr>,
      events = [Connected, ErrorEvent WriteException, Reconnecting (Finite 10) 1],
      wire = [], immediates = [''a''], callbacks = 1, flushes = 1,
      writes = 1, connects = 1\<rparr>"



definition opts_retries :: options where
  "opts_retries = \<lparr>opt_host = ''localhost'', opt_port = 9000, opt_maxRetries = Some 3,
     opt_retryDelay = Some 10, opt_maxBackoff = None, opt_bufferMax = None\<rparr>"

section \<open>Lemmas\<close>

subsection \<open>What \<^verbatim>\<open>_scheduleReconnect\<close> and \<^verbatim>\<open>_safeWrite\<close> change\<close>

lemma scheduleReconnect_frame:
  "buffer (scheduleReconnect t) = buffer t"
  "bufferMax (scheduleReconnect t) = bufferMax t"
  "maxRetries (scheduleReconnect t) = maxRetries t"
  "retryDelay (scheduleReconnect t) = retryDelay t"
  "maxBackoff (scheduleReconnect t) = maxBackoff t"
  "retryCount (scheduleReconnect t) = retryCount t"
  "connected (scheduleReconnect t) = connected t"
  "closing (scheduleReconnect t) = closing t"
  "socket (scheduleReconnect t) = socket t"
  "wire (scheduleReconnect t) = wire t"
  "immediates (scheduleReconnect t) = immediates t"
  "callbacks (scheduleReconnect t) = callbacks t"
  "flushes (scheduleReconnect t) = flushes t"
  "writes (scheduleReconnect t) = writes t"
  "connects (scheduleReconnect t) = connects t"
  by (simp_all add: scheduleReconnect_def emit_def Let_def)

lemma safeWrite_frame:
  "bufferMax (safeWrite env m t) = bufferMax t"
  "maxRetries (safeWrite env m t) = maxRetries t"
  "retryDelay (safeWrite env m t) = retryDelay t"
  "maxBackoff (safeWrite env m t) = maxBackoff t"
  "retryCount (safeWrite env m t) = retryCount t"
  "connected (safeWrite env m t) = connected t"
  "closing (safeWrite env m t) = closing t"
  "socket (safeWrite env m t) = socket t"
  "immediates (safeWrite env m t) = immediates t"
  "callbacks (safeWrite env m t) = callbacks t"
  "flushes (safeWrite env m t) = flushes t"
  "connects (safeWrite env m t) = connects t"
  by (simp_all add: safeWrite_def scheduleReconnect_frame emit_def Let_def)

lemma safeWrite_success:
  "socket t \<noteq> None \<Longrightarrow> write_ok env (writes t) \<Longrightarrow>
   safeWrite env m t = t\<lparr>wire := wire t @ [m], writes := writes t + 1\<rparr>"
  by (simp add: safeWrite_def)

subsection \<open>The loop of \<^verbatim>\<open>_flushBuffer\<close>\<close>

text \<open>One unfolding of the loop; its result when no write throws; the rule for its
  invariants.\<close>

lemma flushLoop_exit: "\<not> flushCond t \<Longrightarrow> flushLoop env t = Some t"
  by (subst flushLoop.simps) simp

lemma flushLoop_iter: "flushCond t \<Longrightarrow> flushLoop env t = flushLoop env (flushBody env t)"
  by (subst flushLoop.simps) simp

lemma flushLoop_all_ok:
  assumes "\<forall>n\<ge>writes t. write_ok env n" "connected t" "socket t \<noteq> None"
  shows "flushLoop env t =
         Some (t\<lparr>buffer := [], wire := wire t @ filter (\<lambda>m. m \<noteq> []) (buffer t),
                 writes := writes t + length (filter (\<lambda>m. m \<noteq> []) (buffer t))\<rparr>)"
  using assms
proof (induction "buffer t" arbitrary: t)
  case Nil
  then show ?case by (simp add: flushLoop_exit flushCond_def)
next
  case (Cons m rest)
  have c: "flushCond t" using Cons.hyps(2)[symmetric] Cons.prems by (simp add: flushCond_def)
  show ?case
  proof (cases "m = []")
    case True
    have b: "flushBody env t = t\<lparr>buffer := rest\<rparr>"
      using Cons.hyps(2)[symmetric] True by (simp add: flushBody_def)
    have "flushLoop env t = flushLoop env (t\<lparr>buffer := rest\<rparr>)"
      using c b by (simp add: flushLoop_iter)
    also have "\<dots> = Some (t\<lparr>buffer := rest\<rparr>\<lparr>buffer := [], wire := wire (t\<lparr>buffer := rest\<rparr>) @ filter (\<lambda>m. m \<noteq> []) (buffer (t\<lparr>buffer := rest\<rparr>)),
                 writes := writes (t\<lparr>buffer := rest\<rparr>) + length (filter (\<lambda>m. m \<noteq> []) (buffer (t\<lparr>buffer := rest\<rparr>)))\<rparr>)"
      by (rule Cons.hyps(1)) (use Cons.prems in simp_all)
    finally show ?thesis using Cons.hyps(2)[symmetric] True by simp
  next
    case False
    let ?t1 = "t\<lparr>buffer := rest, wire := wire t @ [m], writes := writes t + 1\<rparr>"
    have b: "flushBody env t = ?t1"
      using Cons.hyps(2)[symmetric] False Cons.prems by (simp add: flushBody_def safeWrite_success)
    have "flushLoop env t = flushLoop env ?t1"
      using c b by (simp add: flushLoop_iter)
    also have "\<dots> = Some (?t1\<lparr>buffer := [], wire := wire ?t1 @ filter (\<lambda>m. m \<noteq> []) (buffer ?t1),
                 writes := writes ?t1 + length (filter (\<lambda>m. m \<noteq> []) (buffer ?t1))\<rparr>)"
      by (rule Cons.hyps(1)) (use Cons.prems in simp_all)
    finally show ?thesis using Cons.hyps(2)[symmetric] False by simp
  qed
qed

lemma flushLoop_invariant:
  assumes run: "flushLoop env t = Some t'" and init: "I t"
    and body: "\<And>s. I s \<Longrightarrow> flushCond s \<Longrightarrow> I (flushBody env s)"
  shows "I t' \<and> \<not> flushCond t'"
proof -
  have "env = env \<longrightarrow> I t \<longrightarrow> I t' \<and> \<not> flushCond t'"
  proof (rule flushLoop.raw_induct
      [where P = "\<lambda>e s r. e = env \<longrightarrow> I s \<longrightarrow> I r \<and> \<not> flushCond r", OF _ run])
    fix f e s r
    assume IH: "\<And>e s r. f e s = Some r \<Longrightarrow> e = env \<longrightarrow> I s \<longrightarrow> I r \<and> \<not> flushCond r"
      and eq: "(if flushCond s then f e (flushBody e s) else Some s) = Some r"
    show "e = env \<longrightarrow> I s \<longrightarrow> I r \<and> \<not> flushCond r"
    proof (cases "flushCond s")
      case True
      with eq have "f e (flushBody e s) = Some r" by simp
      then have "e = env \<longrightarrow> I (flushBody e s) \<longrightarrow> I r \<and> \<not> flushCond r" by (rule IH)
      moreover have "e = env \<longrightarrow> I s \<longrightarrow> I (flushBody e s)" using True body by simp
      ultimately show ?thesis by simp
    next
      case False
      with eq show ?thesis by simp
    qed
  qed
  with init show ?thesis by simp
qed

text \<open>A write that throws. If every write throws, a flush of a buffer within its bound
  never ends; if the writes stop throwing at some point, every flush ends; and a flush
  that ends has written the buffer in order and emptied it.\<close>

lemma safeWrite_failure:
  "socket t \<noteq> None \<Longrightarrow> \<not> write_ok env (writes t) \<Longrightarrow>
   safeWrite env m t =
     scheduleReconnect
       (t\<lparr>writes := writes t + 1, events := events t @ [ErrorEvent WriteException],
          buffer := (if int (length (buffer t)) < bufferMax t then m # buffer t else buffer t)\<rparr>)"
  by (cases "socket t") (simp_all add: safeWrite_def emit_def Let_def)

lemma safeWrite_buffer_fail:
  "socket t \<noteq> None \<Longrightarrow> \<not> write_ok env (writes t) \<Longrightarrow>
   buffer (safeWrite env m t) =
     (if int (length (buffer t)) < bufferMax t then m # buffer t else buffer t) \<and>
   writes (safeWrite env m t) = writes t + 1 \<and> wire (safeWrite env m t) = wire t"
  by (simp add: safeWrite_failure scheduleReconnect_frame)

lemma flushLoop_diverges:
  assumes "flushCond t" "\<forall>n\<ge>writes t. \<not> write_ok env n" "hd (buffer t) \<noteq> []"
    "int (length (buffer t)) \<le> bufferMax t"
  shows "flushLoop env t = None"
proof -
  define D where "D = (\<lambda>e (s::transport). e = env \<and> flushCond s \<and> (\<forall>n\<ge>writes s. \<not> write_ok env n) \<and> hd (buffer s) \<noteq> [] \<and>
    int (length (buffer s)) \<le> bufferMax s)"
  have step: "D e (flushBody e s)" if "D e s" for e s
  proof -
    from that have e: "e = env" and c: "flushCond s" and w: "\<forall>n\<ge>writes s. \<not> write_ok env n"
      and h: "hd (buffer s) \<noteq> []" and l: "int (length (buffer s)) \<le> bufferMax s"
      by (simp_all add: D_def)
    from c obtain m rest where b: "buffer s = m # rest" by (cases "buffer s") (simp_all add: flushCond_def)
    let ?s1 = "s\<lparr>buffer := rest\<rparr>"
    have f: "flushBody env s = safeWrite env m ?s1" using b h by (simp add: flushBody_def)
    have so: "socket ?s1 \<noteq> None" using c by (simp add: flushCond_def)
    have nw: "\<not> write_ok env (writes ?s1)" using w by simp
    have "buffer (safeWrite env m ?s1) = m # rest" "writes (safeWrite env m ?s1) = writes s + 1"
      using safeWrite_buffer_fail[OF so nw, of m] l b by simp_all
    then show ?thesis using e f c w h l b
      by (simp add: D_def flushCond_def safeWrite_frame)
  qed
  have "\<not> D env t" if r: "flushLoop env t = Some t'" for t'
  proof (rule flushLoop.raw_induct [where P = "\<lambda>e s r. \<not> D e s", OF _ r])
    fix f e s r
    assume IH: "\<And>e s r. f e s = Some r \<Longrightarrow> \<not> D e s"
      and eq: "(if flushCond s then f e (flushBody e s) else Some s) = Some r"
    show "\<not> D e s"
    proof
      assume d: "D e s"
      then have "flushCond s" by (simp add: D_def)
      with eq have "f e (flushBody e s) = Some r" by simp
      then have "\<not> D e (flushBody e s)" by (rule IH)
      with step[OF d] show False by simp
    qed
  qed
  moreover have "D env t" using assms by (simp add: D_def)
  ultimately show ?thesis by (cases "flushLoop env t") auto
qed

lemma flushLoop_terminates:
  assumes "\<forall>n\<ge>N. write_ok env n"
  shows "\<exists>t'. flushLoop env t = Some t'"
proof (induction "length (buffer t) + (N - writes t)" arbitrary: t rule: less_induct)
  case less
  show ?case
  proof (cases "flushCond t")
    case False
    then show ?thesis by (simp add: flushLoop_exit)
  next
    case True
    then obtain m rest where b: "buffer t = m # rest" by (cases "buffer t") (simp_all add: flushCond_def)
    from True have so: "socket t \<noteq> None" by (simp add: flushCond_def)
    let ?t1 = "t\<lparr>buffer := rest\<rparr>"
    have "length (buffer (flushBody env t)) + (N - writes (flushBody env t)) < length (buffer t) + (N - writes t)"
    proof (cases "m = []")
      case True
      then show ?thesis using b by (simp add: flushBody_def)
    next
      case False
      then have f: "flushBody env t = safeWrite env m ?t1" using b by (simp add: flushBody_def)
      show ?thesis
      proof (cases "write_ok env (writes t)")
        case True
        then show ?thesis using f so b by (simp add: safeWrite_success)
      next
        case False
        then have "writes t < N" using assms by (meson not_le)
        moreover have "\<not> write_ok env (writes ?t1)" "socket ?t1 \<noteq> None" using False so by simp_all
        note safeWrite_buffer_fail[OF this(2) this(1), of m]
        ultimately show ?thesis using f b by (auto split: if_splits)
      qed
    qed
    from less[OF this] show ?thesis using True by (simp add: flushLoop_iter)
  qed
qed

lemma flushLoop_delivers:
  assumes r: "flushLoop env t = Some t'" and c: "connected t" and so: "socket t \<noteq> None"
    and l: "int (length (buffer t)) \<le> bufferMax t"
  shows "buffer t' = [] \<and> wire t' = wire t @ filter (\<lambda>m. m \<noteq> []) (buffer t)"
proof -
  define I where "I = (\<lambda>s::transport. connected s \<and> socket s \<noteq> None \<and> int (length (buffer s)) \<le> bufferMax s \<and>
     wire s @ filter (\<lambda>m. m \<noteq> []) (buffer s) = wire t @ filter (\<lambda>m. m \<noteq> []) (buffer t))"
  have "I t' \<and> \<not> flushCond t'"
  proof (rule flushLoop_invariant[OF r])
    show "I t" using c so l by (simp add: I_def)
  next
    fix s assume i: "I s" and fc: "flushCond s"
    then obtain m rest where b: "buffer s = m # rest" by (cases "buffer s") (simp_all add: flushCond_def)
    let ?s1 = "s\<lparr>buffer := rest\<rparr>"
    from i have so1: "socket ?s1 \<noteq> None" by (simp add: I_def)
    show "I (flushBody env s)"
    proof (cases "m = []")
      case True
      then show ?thesis using i b by (simp add: flushBody_def I_def)
    next
      case False
      then have f: "flushBody env s = safeWrite env m ?s1" using b by (simp add: flushBody_def)
      show ?thesis
      proof (cases "write_ok env (writes s)")
        case True
        then show ?thesis using f i b False so1 by (simp add: safeWrite_success I_def)
      next
        case w: False
        then have "\<not> write_ok env (writes ?s1)" by simp
        from safeWrite_buffer_fail[OF so1 this, of m] i b False
        show ?thesis unfolding f by (simp add: I_def safeWrite_frame)
      qed
    qed
  qed
  then show ?thesis by (auto simp: I_def flushCond_def)
qed

subsection \<open>Events, the frame of the loop, and the invariant of the buffer\<close>

lemma loggedInfos_append: "loggedInfos (xs @ ys) = loggedInfos xs @ loggedInfos ys"
  by (induction xs rule: loggedInfos.induct) simp_all

lemma scheduleReconnect_events:
  "loggedInfos (events (scheduleReconnect t)) = loggedInfos (events t)"
  "count_list (events (scheduleReconnect t)) Connected = count_list (events t) Connected"
  by (simp_all add: scheduleReconnect_def emit_def Let_def loggedInfos_append)

lemma safeWrite_events:
  "loggedInfos (events (safeWrite env m t)) = loggedInfos (events t)"
  "count_list (events (safeWrite env m t)) Connected = count_list (events t) Connected"
  by (simp_all add: safeWrite_def emit_def Let_def loggedInfos_append scheduleReconnect_events)

lemma safeWrite_inv: "buffer_ok t \<Longrightarrow> m \<noteq> [] \<Longrightarrow> buffer_ok (safeWrite env m t)"
  by (auto simp: buffer_ok_def safeWrite_def emit_def Let_def scheduleReconnect_frame)

lemma flushBody_frame:
  "bufferMax (flushBody env t) = bufferMax t"
  "maxRetries (flushBody env t) = maxRetries t"
  "retryDelay (flushBody env t) = retryDelay t"
  "maxBackoff (flushBody env t) = maxBackoff t"
  "retryCount (flushBody env t) = retryCount t"
  "connected (flushBody env t) = connected t"
  "closing (flushBody env t) = closing t"
  "socket (flushBody env t) = socket t"
  "immediates (flushBody env t) = immediates t"
  "callbacks (flushBody env t) = callbacks t"
  "flushes (flushBody env t) = flushes t"
  "connects (flushBody env t) = connects t"
  "loggedInfos (events (flushBody env t)) = loggedInfos (events t)"
  "count_list (events (flushBody env t)) Connected = count_list (events t) Connected"
  by (simp_all add: flushBody_def Let_def safeWrite_frame safeWrite_events)

lemma flushBody_inv: "buffer_ok t \<Longrightarrow> flushCond t \<Longrightarrow> buffer_ok (flushBody env t)"
proof -
  assume i: "buffer_ok t" and c: "flushCond t"
  then obtain m rest where b: "buffer t = m # rest" by (cases "buffer t") (simp_all add: flushCond_def)
  have "buffer_ok (t\<lparr>buffer := rest\<rparr>)" using i b by (simp add: buffer_ok_def)
  moreover have "m \<noteq> []" using i b by (auto simp: buffer_ok_def)
  ultimately show ?thesis using b by (simp add: flushBody_def safeWrite_inv)
qed

lemma flushLoop_frame:
  assumes "flushLoop env t = Some t'"
  shows "same_frame t t'"
proof -
  have "same_frame t t' \<and> \<not> flushCond t'"
    by (rule flushLoop_invariant[where I = "same_frame t", OF assms])
      (simp_all add: same_frame_def flushBody_frame)
  then show ?thesis by simp
qed

lemma flushLoop_inv:
  assumes "flushLoop env t = Some t'" "buffer_ok t"
  shows "buffer_ok t'"
proof -
  have "buffer_ok t' \<and> \<not> flushCond t'"
    by (rule flushLoop_invariant[where I = buffer_ok, OF assms]) (simp_all add: flushBody_inv)
  then show ?thesis by simp
qed

subsection \<open>Invariants of runs\<close>

lemma EOL_nonempty: "i @ EOL \<noteq> []"
  by (simp add: EOL_def)

lemma log_inv: "buffer_ok t \<Longrightarrow> buffer_ok (log env i t)"
proof -
  assume i: "buffer_ok t"
  let ?t0 = "t\<lparr>immediates := immediates t @ [i]\<rparr>"
  have "buffer_ok ?t0" using i by (simp add: buffer_ok_def)
  from safeWrite_inv[OF this EOL_nonempty, of env i] i show ?thesis
    by (auto simp: log_def Let_def buffer_ok_def emit_def EOL_def)
qed

lemma on_connect_Some:
  "on_connect env t = Some t' \<Longrightarrow>
   \<exists>s. flushLoop env (t\<lparr>connected := True, retryCount := 0, flushes := flushes t + 1\<rparr>) = Some s \<and>
       t' = emit Connected s"
  by (auto simp: on_connect_def flushBuffer_def split: option.splits)

lemma on_connect_inv: "on_connect env t = Some t' \<Longrightarrow> buffer_ok t \<Longrightarrow> buffer_ok t'"
proof -
  assume r: "on_connect env t = Some t'" and i: "buffer_ok t"
  from on_connect_Some[OF r] obtain s where
    s: "flushLoop env (t\<lparr>connected := True, retryCount := 0, flushes := flushes t + 1\<rparr>) = Some s"
    and t': "t' = emit Connected s" by blast
  have "buffer_ok (t\<lparr>connected := True, retryCount := 0, flushes := flushes t + 1\<rparr>)"
    using i by (simp add: buffer_ok_def)
  from flushLoop_inv[OF s this] show ?thesis by (simp add: t' buffer_ok_def emit_def)
qed

lemma step_inv: "step env x t = Some t' \<Longrightarrow> buffer_ok t \<Longrightarrow> buffer_ok t'"
proof (cases x)
  case (Log i)
  then show "step env x t = Some t' \<Longrightarrow> buffer_ok t \<Longrightarrow> buffer_ok t'" using log_inv by auto
next
  case SocketConnect
  then show "step env x t = Some t' \<Longrightarrow> buffer_ok t \<Longrightarrow> buffer_ok t'"
    using on_connect_inv by (auto split: if_splits)
qed (auto simp: buffer_ok_def close_def on_error_def on_close_def on_timeout_def on_timer_def
      on_immediate_def on_end_def connect_def scheduleReconnect_frame emit_def destroy_def Let_def
      split: option.splits list.splits if_splits)

lemma run_inv: "run env xs t = Some t' \<Longrightarrow> buffer_ok t \<Longrightarrow> buffer_ok t'"
proof (induction xs arbitrary: t)
  case Nil
  then show ?case by simp
next
  case (Cons x xs)
  then show ?case by (auto split: option.splits dest: step_inv)
qed

lemma constructor_inv: "0 \<le> bufferMax (init opts) \<Longrightarrow> buffer_ok (constructor env opts)"
  by (simp add: constructor_def connect_def buffer_ok_def scheduleReconnect_frame Let_def) (simp add: init_def)

lemma run_append:
  "run env (xs @ ys) t = (case run env xs t of None \<Rightarrow> None | Some t1 \<Rightarrow> run env ys t1)"
  by (induction xs arbitrary: t) (simp_all split: option.splits)

lemma logInputs_Cons: "logInputs (x # xs) = logInputs [x] @ logInputs xs"
  by (cases x) simp_all

lemma step_disconnected:
  assumes "x \<noteq> SocketConnect" and "\<not> connected t"
  shows "\<exists>t1. step env x t = Some t1 \<and> \<not> connected t1 \<and> wire t1 = wire t \<and>
           bufferMax t1 = bufferMax t \<and> flushes t1 = flushes t \<and>
           buffer t1 =
             (if int (length (buffer t)) < bufferMax t
              then buffer t @ map (\<lambda>i. i @ EOL) (logInputs [x]) else buffer t)"
proof (cases x)
  case (Log i)
  then show ?thesis using assms(2) by (simp add: log_def Let_def emit_def)
next
  case SocketConnect
  with assms(1) show ?thesis by simp
qed (use assms(2) in \<open>auto simp: close_def on_error_def on_close_def on_timeout_def on_timer_def
      on_immediate_def on_end_def connect_def scheduleReconnect_frame emit_def Let_def
      split: option.splits list.splits\<close>)

lemma run_disconnected:
  assumes "\<not> connected t" and "SocketConnect \<notin> set xs"
    and "int (length (buffer t)) + int (length (logInputs xs)) \<le> bufferMax t"
  shows "\<exists>t1. run env xs t = Some t1 \<and>
           buffer t1 = buffer t @ map (\<lambda>i. i @ EOL) (logInputs xs) \<and>
           \<not> connected t1 \<and> wire t1 = wire t \<and> bufferMax t1 = bufferMax t \<and>
           flushes t1 = flushes t"
  using assms
proof (induction xs arbitrary: t)
  case Nil
  then show ?case by simp
next
  case (Cons x xs)
  have l: "logInputs (x # xs) = logInputs [x] @ logInputs xs" by (rule logInputs_Cons)
  from Cons.prems(2) have x: "x \<noteq> SocketConnect" and xs: "SocketConnect \<notin> set xs" by auto
  from step_disconnected[OF x Cons.prems(1), of env] obtain t1 where
    s: "step env x t = Some t1" and c: "\<not> connected t1" and
    f: "wire t1 = wire t" "bufferMax t1 = bufferMax t" "flushes t1 = flushes t" and
    b: "buffer t1 =
          (if int (length (buffer t)) < bufferMax t
           then buffer t @ map (\<lambda>i. i @ EOL) (logInputs [x]) else buffer t)"
    by blast
  have b1: "buffer t1 = buffer t @ map (\<lambda>i. i @ EOL) (logInputs [x])"
  proof (cases "logInputs [x] = []")
    case True
    with b show ?thesis by simp
  next
    case False
    then have "0 < int (length (logInputs [x]))" by simp
    moreover have "int (length (buffer t)) + (int (length (logInputs [x])) +
        int (length (logInputs xs))) \<le> bufferMax t"
      using Cons.prems(3) l by simp
    ultimately have "int (length (buffer t)) < bufferMax t" by linarith
    with b show ?thesis by simp
  qed
  have "int (length (buffer t1)) + int (length (logInputs xs)) \<le> bufferMax t1"
    using Cons.prems(3) l b1 f by simp
  from Cons.IH[OF c xs this] obtain t2 where
    "run env xs t1 = Some t2" "buffer t2 = buffer t1 @ map (\<lambda>i. i @ EOL) (logInputs xs)"
    "\<not> connected t2" "wire t2 = wire t1" "bufferMax t2 = bufferMax t1" "flushes t2 = flushes t1"
    by blast
  then show ?case using s b1 f l by simp
qed

lemma step_flush_count:
  assumes "step env x t = Some t'" "flushes t = count_list (events t) Connected"
  shows "flushes t' = count_list (events t') Connected"
proof (cases x)
  case SocketConnect
  show ?thesis
  proof (cases "socket t = None")
    case True
    with assms SocketConnect show ?thesis by simp
  next
    case False
    with assms SocketConnect have r: "on_connect env t = Some t'" by simp
    from on_connect_Some[OF r] obtain s where
      s: "flushLoop env (t\<lparr>connected := True, retryCount := 0, flushes := flushes t + 1\<rparr>) = Some s"
      and t': "t' = emit Connected s" by blast
    from flushLoop_frame[OF s] assms(2) show ?thesis by (simp add: t' same_frame_def emit_def)
  qed
qed (use assms in \<open>auto simp: log_def close_def on_error_def on_close_def on_timeout_def on_timer_def
      on_immediate_def on_end_def connect_def scheduleReconnect_frame scheduleReconnect_events
      safeWrite_frame safeWrite_events emit_def Let_def
      split: option.splits list.splits if_splits\<close>)

lemma run_flush_count:
  "run env xs t = Some t' \<Longrightarrow> flushes t = count_list (events t) Connected \<Longrightarrow>
   flushes t' = count_list (events t') Connected"
  by (induction xs arbitrary: t) (auto split: option.splits dest: step_flush_count)

lemma step_logged:
  assumes "step env x t = Some t'"
  shows "loggedInfos (events t') @ immediates t' = loggedInfos (events t) @ immediates t @ logInputs [x]"
proof (cases x)
  case SocketConnect
  show ?thesis
  proof (cases "socket t = None")
    case True
    with assms SocketConnect show ?thesis by simp
  next
    case False
    with assms SocketConnect have r: "on_connect env t = Some t'" by simp
    from on_connect_Some[OF r] obtain s where
      s: "flushLoop env (t\<lparr>connected := True, retryCount := 0, flushes := flushes t + 1\<rparr>) = Some s"
      and t': "t' = emit Connected s" by blast
    from flushLoop_frame[OF s] SocketConnect show ?thesis
      by (simp add: t' same_frame_def emit_def loggedInfos_append)
  qed
qed (use assms in \<open>auto simp: log_def close_def on_error_def on_close_def on_timeout_def on_timer_def
      on_immediate_def on_end_def connect_def scheduleReconnect_frame scheduleReconnect_events
      safeWrite_frame safeWrite_events emit_def Let_def loggedInfos_append
      split: option.splits list.splits if_splits\<close>)

lemma run_logged:
  "run env xs t = Some t' \<Longrightarrow>
   loggedInfos (events t') @ immediates t' = loggedInfos (events t) @ immediates t @ logInputs xs"
proof (induction xs arbitrary: t)
  case Nil
  then show ?case by simp
next
  case (Cons x xs)
  from Cons.prems obtain t1 where s: "step env x t = Some t1" and r: "run env xs t1 = Some t'"
    by (auto split: option.splits)
  from Cons.IH[OF r] step_logged[OF s] show ?case
    by (subst logInputs_Cons) simp
qed

lemma constructor_facts:
  "flushes (constructor env opts) = 0"
  "count_list (events (constructor env opts)) Connected = 0"
  "loggedInfos (events (constructor env opts)) = []"
  "immediates (constructor env opts) = []"
  by (simp_all add: constructor_def connect_def scheduleReconnect_frame scheduleReconnect_events Let_def)
     (simp_all add: init_def)

subsection \<open>Particular steps\<close>

lemma filter_nonempty: "[] \<notin> set xs \<Longrightarrow> filter (\<lambda>m. m \<noteq> []) xs = xs"
  by (induction xs) auto

lemma log_overflow:
  assumes "\<not> connected t" and "bufferMax t \<le> int (length (buffer t))"
  shows "log env i t = t\<lparr>immediates := immediates t @ [i],
                          events := events t @ [ErrorEvent BufferOverflow],
                          callbacks := callbacks t + 1\<rparr>"
  using assms by (simp add: log_def Let_def emit_def)

lemma on_connect_delivers:
  assumes ok: "buffer_ok t" and fin: "\<forall>n\<ge>N. write_ok env n"
  shows "\<exists>t'. on_connect env t = Some t' \<and> connected t' \<and> buffer t' = [] \<and>
           wire t' = wire t @ buffer t \<and> flushes t' = flushes t + 1"
proof -
  let ?t0 = "t\<lparr>connected := True, retryCount := 0, flushes := flushes t + 1\<rparr>"
  from flushLoop_terminates[OF fin] obtain s where s: "flushLoop env ?t0 = Some s" by blast
  have "connected ?t0" "socket ?t0 \<noteq> None" "int (length (buffer ?t0)) \<le> bufferMax ?t0"
    using ok by (simp_all add: buffer_ok_def)
  from flushLoop_delivers[OF s this] ok
  have d: "buffer s = []" "wire s = wire t @ buffer t"
    by (simp_all add: buffer_ok_def filter_nonempty)
  from flushLoop_frame[OF s] have f: "connected s" "flushes s = flushes t + 1"
    by (simp_all add: same_frame_def)
  from s d f show ?thesis by (simp add: on_connect_def flushBuffer_def emit_def)
qed

lemma scheduleReconnect_armed:
  assumes "\<not> closing t" and "\<not> (0 \<le> maxRetries t \<and> maxRetries t \<le> int (retryCount t))"
  shows "scheduleReconnect t =
           t\<lparr>reconnectTimer := Some \<lparr>delay = reconnect_delay t, pending = True\<rparr>,
              events := events t @ [Reconnecting (reconnect_delay t) (retryCount t + 1)]\<rparr>"
  using assms by (auto simp: scheduleReconnect_def emit_def Let_def)


lemma loggedInfos_Logged: "loggedInfos (map Logged xs) = xs"
  by (induction xs) simp_all

lemma run_immediates:
  "\<exists>t'. run env (replicate (length (immediates t)) Immediate) t = Some t' \<and>
     events t' = events t @ map Logged (immediates t) \<and> immediates t' = []"
proof (induction "immediates t" arbitrary: t)
  case Nil
  then show ?case by simp
next
  case (Cons i rest)
  let ?t1 = "on_immediate t"
  have e: "immediates ?t1 = rest" "events ?t1 = events t @ [Logged i]"
    using Cons.hyps(2)[symmetric] by (simp_all add: on_immediate_def emit_def)
  from Cons.hyps(1)[of ?t1] e obtain t' where
    "run env (replicate (length rest) Immediate) ?t1 = Some t'"
    "events t' = events ?t1 @ map Logged rest" "immediates t' = []"
    by auto
  then show ?case using e Cons.hyps(2)[symmetric] by simp
qed

lemma reconnect_delay_zero:
  "retryCount t = 0 \<Longrightarrow> reconnect_delay t = Finite (min (retryDelay t) (maxBackoff t))"
  by (simp add: reconnect_delay_def pow2_def)


lemma on_close_from_zero:
  assumes "\<not> closing t" and "maxRetries t \<noteq> 0" and "retryCount t = 0"
  shows "events (on_close t) =
           events t @ [Disconnected, Reconnecting (Finite (min (retryDelay t) (maxBackoff t))) 1]"
proof -
  let ?t1 = "emit Disconnected (t\<lparr>connected := False\<rparr>)"
  have "\<not> closing ?t1" "\<not> (0 \<le> maxRetries ?t1 \<and> maxRetries ?t1 \<le> int (retryCount ?t1))"
    using assms by (simp_all add: emit_def)
  from scheduleReconnect_armed[OF this] reconnect_delay_zero[of ?t1] assms show ?thesis
    by (simp add: on_close_def Let_def emit_def)
qed




section \<open>The claims\<close>

subsection \<open>C1: a record whose write failed\<close>

text \<open>
  C1, as stated, fails. The claim is that \<^verbatim>\<open>_safeWrite\<close> puts a record whose write threw
  back at the head of the buffer whatever the occupancy, also when the buffer holds
  \<open>bufferMax\<close> records. With \<open>bufferMax = 1\<close> and every write throwing, the transport
  connects and \<^verbatim>\<open>log\<close> is called with \<open>a\<close>: the write throws and \<open>a\<close> is put into the
  buffer, which is full now. The next record, \<open>b\<close>, whose write throws too, is not put
  back: the buffer is as before and \<open>b\<close> is lost.
\<close>

theorem C1_counterexample:
  "run env_never [SocketConnect, Log ''a''] (constructor env_never opts1) = Some full_state \<and>
   int (length (buffer full_state)) = bufferMax full_state \<and>
   socket full_state \<noteq> None \<and> \<not> write_ok env_never (writes full_state) \<and>
   buffer (safeWrite env_never (''b'' @ EOL) full_state) = buffer full_state \<and>
   ''b'' @ EOL \<notin> set (buffer (safeWrite env_never (''b'' @ EOL) full_state))"
  by code_simp

text \<open>
  C1, amended: when the write of a record throws, \<^verbatim>\<open>_safeWrite\<close> emits the error, puts
  the record at the head of the buffer if the buffer holds fewer than \<open>bufferMax\<close> records
  and drops it otherwise, writes nothing, and calls \<^verbatim>\<open>_scheduleReconnect\<close>.
\<close>

theorem C1_requeue_only_below_bufferMax:
  assumes "socket t \<noteq> None" and "\<not> write_ok env (writes t)"
  shows "buffer (safeWrite env m t) =
           (if int (length (buffer t)) < bufferMax t then m # buffer t else buffer t) \<and>
         wire (safeWrite env m t) = wire t \<and>
         safeWrite env m t =
           scheduleReconnect
             (t\<lparr>writes := writes t + 1, events := events t @ [ErrorEvent WriteException],
                buffer := (if int (length (buffer t)) < bufferMax t then m # buffer t
                           else buffer t)\<rparr>)"
  using assms safeWrite_buffer_fail[OF assms, of m] safeWrite_failure[OF assms, of m] by simp

theorem C1_witness:
  "socket full_state \<noteq> None \<and> \<not> write_ok env_never (writes full_state) \<and>
   buffer (safeWrite env_never (''b'' @ EOL) full_state) = [''a'' @ EOL] \<and>
   buffer (safeWrite env_never (''b'' @ EOL) (full_state\<lparr>bufferMax := 2\<rparr>)) =
     [''b'' @ EOL, ''a'' @ EOL]"
proof -
  have s: "socket full_state \<noteq> None" "socket (full_state\<lparr>bufferMax := 2\<rparr>) \<noteq> None"
    by (simp_all add: full_state_def)
  have w: "\<not> write_ok env_never (writes full_state)"
    "\<not> write_ok env_never (writes (full_state\<lparr>bufferMax := 2\<rparr>))"
    by (simp_all add: env_never_def)
  have "buffer (safeWrite env_never (''b'' @ EOL) full_state) =
          (if int (length (buffer full_state)) < bufferMax full_state
           then (''b'' @ EOL) # buffer full_state else buffer full_state)"
    using C1_requeue_only_below_bufferMax[OF s(1) w(1), of "''b'' @ EOL"] by (rule conjunct1)
  then have b1: "buffer (safeWrite env_never (''b'' @ EOL) full_state) = [''a'' @ EOL]"
    by (simp add: full_state_def)
  have "buffer (safeWrite env_never (''b'' @ EOL) (full_state\<lparr>bufferMax := 2\<rparr>)) =
          (if int (length (buffer (full_state\<lparr>bufferMax := 2\<rparr>))) < bufferMax (full_state\<lparr>bufferMax := 2\<rparr>)
           then (''b'' @ EOL) # buffer (full_state\<lparr>bufferMax := 2\<rparr>) else buffer (full_state\<lparr>bufferMax := 2\<rparr>))"
    using C1_requeue_only_below_bufferMax[OF s(2) w(2), of "''b'' @ EOL"] by (rule conjunct1)
  then have b2: "buffer (safeWrite env_never (''b'' @ EOL) (full_state\<lparr>bufferMax := 2\<rparr>)) =
     [''b'' @ EOL, ''a'' @ EOL]"
    by (simp add: full_state_def)
  from s(1) w(1) b1 b2 show ?thesis by (intro conjI)
qed

subsection \<open>C2: a connection that succeeds after \<^verbatim>\<open>close\<close>\<close>

text \<open>
  C2, as stated, fails. The claim is that the listener of \<^verbatim>\<open>'connect'\<close> looks at
  \<open>closing\<close> before it marks the transport connected and flushes. It does not: a record
  is logged while the first connection attempt is under way, \<^verbatim>\<open>close\<close> is called (the
  transport is closing and not connected), and then the attempt succeeds. The transport is
  connected afterwards, the buffered record has been written to the socket, and
  \<^verbatim>\<open>'connected'\<close> has been emitted.
\<close>

theorem C2_counterexample:
  "map_option closing (run env_ok [Log ''a'', Close] (constructor env_ok opts1)) = Some True \<and>
   map_option connected (run env_ok [Log ''a'', Close] (constructor env_ok opts1)) = Some False \<and>
   map_option connected (run env_ok [Log ''a'', Close, SocketConnect] (constructor env_ok opts1))
     = Some True \<and>
   map_option wire (run env_ok [Log ''a'', Close, SocketConnect] (constructor env_ok opts1))
     = Some [''a'' @ EOL] \<and>
   map_option events (run env_ok [Log ''a'', Close, SocketConnect] (constructor env_ok opts1))
     = Some [Connected]"
  by code_simp

text \<open>
  C2, amended: the listener of \<^verbatim>\<open>'connect'\<close> does not look at \<open>closing\<close>. When a
  connection attempt succeeds after \<^verbatim>\<open>close\<close> (and no write throws), the transport
  becomes connected, \<open>retryCount\<close> is \<open>0\<close>, the buffer is flushed to the socket in order,
  and \<^verbatim>\<open>'connected'\<close> is emitted; the transport stays closing.
\<close>

theorem C2_connect_after_close:
  assumes "socket t \<noteq> None" and "\<forall>n\<ge>writes t. write_ok env n"
  shows "\<exists>t'. on_connect env (close t) = Some t' \<and> closing t' \<and> connected t' \<and>
           retryCount t' = 0 \<and> buffer t' = [] \<and>
           wire t' = wire t @ filter (\<lambda>m. m \<noteq> []) (buffer t) \<and>
           events t' = events t @ [Connected]"
proof -
  let ?c = "(close t)\<lparr>connected := True, retryCount := 0, flushes := flushes (close t) + 1\<rparr>"
  have f: "buffer (close t) = buffer t" "wire (close t) = wire t" "events (close t) = events t"
    "writes (close t) = writes t" "closing (close t)" "socket (close t) \<noteq> None"
    using assms(1) by (auto simp: close_def Let_def)
  have "\<forall>n\<ge>writes ?c. write_ok env n" "connected ?c" "socket ?c \<noteq> None"
    using assms(2) f by simp_all
  from flushLoop_all_ok[OF this]
  show ?thesis using f by (simp add: on_connect_def flushBuffer_def emit_def)
qed

theorem C2_witness:
  "socket (log env_ok ''a'' (constructor env_ok opts1)) \<noteq> None \<and>
   (\<exists>t'. on_connect env_ok (close (log env_ok ''a'' (constructor env_ok opts1))) = Some t' \<and>
      closing t' \<and> connected t' \<and> wire t' = [''a'' @ EOL])"
proof -
  let ?t = "log env_ok ''a'' (constructor env_ok opts1)"
  have s: "socket ?t \<noteq> None" by code_simp
  have w: "\<forall>n\<ge>writes ?t. write_ok env_ok n" by (simp add: env_ok_def)
  have b: "wire ?t = []" "buffer ?t = [''a'' @ EOL]" by code_simp+
  from C2_connect_after_close[OF s w] b s show ?thesis by (auto simp: EOL_def)
qed

subsection \<open>C3: a write that throws during a flush\<close>

text \<open>
  C3 is about the loop of \<^verbatim>\<open>_flushBuffer\<close>: a write that throws shall end the draining
  of this connection, the record going back to the head of the buffer and the others
  staying behind it. The code evaluated where it does otherwise: with \<open>bufferMax = 2\<close>,
  \<open>a\<close> and \<open>b\<close> are logged before the connection succeeds, and the first write throws.
  The record \<open>a\<close> goes back to the head and a reconnect is scheduled, but
  \<open>connected\<close> is still true, so the loop takes \<open>a\<close> again: both records are on the wire
  after this one flush and the buffer is empty. Where every write throws, the loop takes
  the same record for ever and the listener never returns.
\<close>

theorem C3_flush_goes_on_after_failure:
  "map_option buffer (run env_once [Log ''a'', Log ''b''] (constructor env_once opts2))
     = Some [''a'' @ EOL, ''b'' @ EOL] \<and>
   map_option wire (run env_once [Log ''a'', Log ''b'', SocketConnect] (constructor env_once opts2))
     = Some [''a'' @ EOL, ''b'' @ EOL] \<and>
   map_option buffer (run env_once [Log ''a'', Log ''b'', SocketConnect] (constructor env_once opts2))
     = Some [] \<and>
   map_option events (run env_once [Log ''a'', Log ''b'', SocketConnect] (constructor env_once opts2))
     = Some [ErrorEvent WriteException, Reconnecting (Finite 10) 1, Connected] \<and>
   run env_never [Log ''a'', SocketConnect] (constructor env_never opts2) = None"
proof -
  let ?t = "log env_never ''a'' (constructor env_never opts2)"
  let ?s = "?t\<lparr>connected := True, retryCount := 0, flushes := flushes ?t + 1\<rparr>"
  have b: "buffer ?t = [''a'' @ EOL]" "bufferMax ?t = 2" "socket ?t \<noteq> None" by code_simp+
  have w: "\<not> write_ok env_never n" for n by (simp add: env_never_def)
  have "flushLoop env_never ?s = None"
    by (rule flushLoop_diverges) (simp_all add: b w flushCond_def EOL_def)
  then have "on_connect env_never ?t = None"
    by (simp add: on_connect_def flushBuffer_def)
  moreover have "socket ?t \<noteq> None" by code_simp
  ultimately have n: "run env_never [Log ''a'', SocketConnect] (constructor env_never opts2) = None"
    by simp
  have "map_option buffer (run env_once [Log ''a'', Log ''b''] (constructor env_once opts2))
     = Some [''a'' @ EOL, ''b'' @ EOL]"
    by code_simp
  moreover have "map_option wire
      (run env_once [Log ''a'', Log ''b'', SocketConnect] (constructor env_once opts2))
     = Some [''a'' @ EOL, ''b'' @ EOL]"
    by code_simp
  moreover have "map_option buffer
      (run env_once [Log ''a'', Log ''b'', SocketConnect] (constructor env_once opts2))
     = Some []"
    by code_simp
  moreover have "map_option events
      (run env_once [Log ''a'', Log ''b'', SocketConnect] (constructor env_once opts2))
     = Some [ErrorEvent WriteException, Reconnecting (Finite 10) 1, Connected]"
    by code_simp
  ultimately show ?thesis using n by (intro conjI)
qed

subsection \<open>C4: the bound of the buffer\<close>

text \<open>
  C4: in every state a transport reaches from its constructor, whatever is logged and
  whatever the socket and the timer do, the buffer holds at most \<open>bufferMax\<close> records; and
  a \<^verbatim>\<open>log\<close> while the transport is not connected and the buffer holds \<open>bufferMax\<close>
  records emits one \<^verbatim>\<open>'error'\<close> with the overflow, and nothing else, leaves the
  buffer as it is and writes nothing. A capacity is not negative: that is the one thing
  asked of the configuration.
\<close>

theorem C4_buffer_within_bufferMax:
  assumes "0 \<le> bufferMax (init opts)" and "run env ins (constructor env opts) = Some t"
  shows "int (length (buffer t)) \<le> bufferMax t \<and>
         (\<not> connected t \<and> int (length (buffer t)) = bufferMax t \<longrightarrow>
            events (log env i t) = events t @ [ErrorEvent BufferOverflow] \<and>
            buffer (log env i t) = buffer t \<and> wire (log env i t) = wire t)"
proof -
  from run_inv[OF assms(2) constructor_inv[OF assms(1)]]
  have "int (length (buffer t)) \<le> bufferMax t" by (simp add: buffer_ok_def)
  moreover have "events (log env i t) = events t @ [ErrorEvent BufferOverflow] \<and>
            buffer (log env i t) = buffer t \<and> wire (log env i t) = wire t"
    if "\<not> connected t" "int (length (buffer t)) = bufferMax t"
    using that by (simp add: log_overflow)
  ultimately show ?thesis by blast
qed

theorem C4_witness:
  "0 \<le> bufferMax (init opts1) \<and>
   run env_ok [Log ''a''] (constructor env_ok opts1) = Some (log env_ok ''a'' (constructor env_ok opts1)) \<and>
   \<not> connected (log env_ok ''a'' (constructor env_ok opts1)) \<and>
   int (length (buffer (log env_ok ''a'' (constructor env_ok opts1)))) = 1 \<and>
   bufferMax (log env_ok ''a'' (constructor env_ok opts1)) = 1 \<and>
   events (log env_ok ''b'' (log env_ok ''a'' (constructor env_ok opts1))) =
     events (log env_ok ''a'' (constructor env_ok opts1)) @ [ErrorEvent BufferOverflow] \<and>
   buffer (log env_ok ''b'' (log env_ok ''a'' (constructor env_ok opts1))) =
     buffer (log env_ok ''a'' (constructor env_ok opts1))"
proof -
  let ?t = "log env_ok ''a'' (constructor env_ok opts1)"
  have h1: "0 \<le> bufferMax (init opts1)" by code_simp
  have h2: "run env_ok [Log ''a''] (constructor env_ok opts1) = Some ?t" by simp
  have c: "\<not> connected ?t" by code_simp
  have l: "int (length (buffer ?t)) = 1" by code_simp
  have m: "bufferMax ?t = 1" by code_simp
  from C4_buffer_within_bufferMax[OF h1 h2, of "''b''"] c l m
  have "events (log env_ok ''b'' ?t) = events ?t @ [ErrorEvent BufferOverflow] \<and>
        buffer (log env_ok ''b'' ?t) = buffer ?t"
    by simp
  with h1 h2 c l m show ?thesis by (intro conjI) simp_all
qed

subsection \<open>C5: the flush delivers in the order of the sends\<close>

text \<open>
  C5: in a state reached from the constructor the transport is not connected. Then
  anything happens except a connection: records are logged, as many as the buffer has
  room for, and between them the socket reports errors, closes or times out, the
  reconnect timer fires and makes new attempts, immediates run, \<^verbatim>\<open>close\<close> is called.
  Then the connection succeeds. If the writes stop throwing at some point, the listener
  of \<^verbatim>\<open>'connect'\<close> returns, the socket has been given what was buffered before and then
  the records in the order of the calls of \<^verbatim>\<open>log\<close>, each followed by \<open>EOL\<close>, and nothing
  else, the buffer is empty and \<^verbatim>\<open>_flushBuffer\<close> was entered once. In every reachable
  state \<^verbatim>\<open>_flushBuffer\<close> has been entered as often as \<^verbatim>\<open>'connected'\<close> has been emitted.
\<close>

theorem C5_flush_in_order:
  assumes "0 \<le> bufferMax (init opts)" and "run env ins (constructor env opts) = Some t"
    and "\<not> connected t" and "SocketConnect \<notin> set xs"
    and "int (length (buffer t)) + int (length (logInputs xs)) \<le> bufferMax t"
    and "\<forall>n\<ge>N. write_ok env n"
  shows "(\<exists>t'. run env (xs @ [SocketConnect]) t = Some t' \<and> connected t' \<and>
            buffer t' = [] \<and>
            wire t' = wire t @ buffer t @ map (\<lambda>i. i @ EOL) (logInputs xs) \<and>
            flushes t' = flushes t + 1) \<and>
         flushes t = count_list (events t) Connected"
proof -
  have ok: "buffer_ok t" by (rule run_inv[OF assms(2) constructor_inv[OF assms(1)]])
  from run_disconnected[OF assms(3,4,5), of env] obtain t1 where
    r1: "run env xs t = Some t1"
    and b1: "buffer t1 = buffer t @ map (\<lambda>i. i @ EOL) (logInputs xs)"
    and f1: "wire t1 = wire t" "flushes t1 = flushes t" by blast
  have ok1: "buffer_ok t1" by (rule run_inv[OF r1 ok])
  from on_connect_delivers[OF ok1 assms(6)] obtain t' where
    c: "on_connect env t1 = Some t'" and d: "connected t'" "buffer t' = []"
      "wire t' = wire t1 @ buffer t1" "flushes t' = flushes t1 + 1" by blast
  have "socket t1 \<noteq> None" using ok1 by (simp add: buffer_ok_def)
  then have "run env (xs @ [SocketConnect]) t = Some t'"
    using r1 c by (auto simp: run_append)
  then have A: "\<exists>t'. run env (xs @ [SocketConnect]) t = Some t' \<and> connected t' \<and>
            buffer t' = [] \<and>
            wire t' = wire t @ buffer t @ map (\<lambda>i. i @ EOL) (logInputs xs) \<and>
            flushes t' = flushes t + 1"
    using d b1 f1 by simp
  have B: "flushes t = count_list (events t) Connected"
    by (rule run_flush_count[OF assms(2)]) (simp add: constructor_facts)
  from A B show ?thesis by (rule conjI)
qed

theorem C5_witness:
  "0 \<le> bufferMax (init opts2) \<and>
   run env_once [SocketError, TimerFires] (constructor env_once opts2) =
     Some (on_timer env_once (on_error (constructor env_once opts2))) \<and>
   \<not> connected (on_timer env_once (on_error (constructor env_once opts2))) \<and>
   (\<exists>t'. run env_once
           [Log ''a'', SocketClose, TimerFires, Immediate, Log ''b'', SocketTimeout, SocketConnect]
           (on_timer env_once (on_error (constructor env_once opts2))) = Some t' \<and>
      connected t' \<and> buffer t' = [] \<and> wire t' = [''a'' @ EOL, ''b'' @ EOL] \<and> flushes t' = 1)"
proof -
  let ?t = "on_timer env_once (on_error (constructor env_once opts2))"
  let ?xs = "[Log ''a'', SocketClose, TimerFires, Immediate, Log ''b'', SocketTimeout]"
  have h1: "0 \<le> bufferMax (init opts2)" by code_simp
  have h2: "run env_once [SocketError, TimerFires] (constructor env_once opts2) = Some ?t"
    by code_simp
  have h3: "\<not> connected ?t" by code_simp
  have h4: "SocketConnect \<notin> set ?xs" by simp
  have h5: "int (length (buffer ?t)) + int (length (logInputs ?xs)) \<le> bufferMax ?t"
    by code_simp
  have h6: "\<forall>n\<ge>1. write_ok env_once n" by (simp add: env_once_def)
  have v: "wire ?t = []" "buffer ?t = []" "flushes ?t = 0" by code_simp+
  from C5_flush_in_order[OF h1 h2 h3 h4 h5 h6] v
  have "\<exists>t'. run env_once (?xs @ [SocketConnect]) ?t = Some t' \<and>
      connected t' \<and> buffer t' = [] \<and> wire t' = [''a'' @ EOL, ''b'' @ EOL] \<and> flushes t' = 1"
    by simp
  then have "\<exists>t'. run env_once
           [Log ''a'', SocketClose, TimerFires, Immediate, Log ''b'', SocketTimeout, SocketConnect]
           ?t = Some t' \<and>
      connected t' \<and> buffer t' = [] \<and> wire t' = [''a'' @ EOL, ''b'' @ EOL] \<and> flushes t' = 1"
    by simp
  with h1 h2 h3 show ?thesis by (intro conjI)
qed

subsection \<open>C6: the delay before a reconnect\<close>




subsection \<open>C7: when no reconnect is scheduled\<close>

text \<open>
  C7: \<^verbatim>\<open>_scheduleReconnect\<close> returns the transport as it was (no timer armed, no event
  emitted, nothing else touched) when the transport is closing, and when
  \<open>maxRetries\<close> is not negative and \<open>retryCount\<close> has reached it.
\<close>

theorem C7_scheduleReconnect_noop:
  assumes "closing t \<or> (0 \<le> maxRetries t \<and> maxRetries t \<le> int (retryCount t))"
  shows "scheduleReconnect t = t"
  using assms by (auto simp: scheduleReconnect_def)

theorem C7_witness:
  "closing (close (constructor env_ok opts_retries)) \<and>
   scheduleReconnect (close (constructor env_ok opts_retries)) =
     close (constructor env_ok opts_retries) \<and>
   maxRetries ((constructor env_ok opts_retries)\<lparr>retryCount := 3\<rparr>) = 3 \<and>
   scheduleReconnect ((constructor env_ok opts_retries)\<lparr>retryCount := 3\<rparr>) =
     (constructor env_ok opts_retries)\<lparr>retryCount := 3\<rparr> \<and>
   map_option events
     (run env_ok [SocketError, TimerFires, SocketError, TimerFires, SocketError, TimerFires,
                  SocketError, SocketClose] (constructor env_ok opts_retries)) =
     Some [Reconnecting (Finite 10) 1, Reconnecting (Finite 20) 2, Reconnecting (Finite 40) 3, Disconnected]"
proof -
  let ?t = "constructor env_ok opts_retries"
  have c: "closing (close ?t)" by code_simp
  have m: "maxRetries (?t\<lparr>retryCount := 3\<rparr>) = 3" by code_simp
  have 1: "scheduleReconnect (close ?t) = close ?t"
    using c by (intro C7_scheduleReconnect_noop) simp
  have 2: "scheduleReconnect (?t\<lparr>retryCount := 3\<rparr>) = ?t\<lparr>retryCount := 3\<rparr>"
    using m by (intro C7_scheduleReconnect_noop) simp
  have 3: "map_option events
     (run env_ok [SocketError, TimerFires, SocketError, TimerFires, SocketError, TimerFires,
                  SocketError, SocketClose] ?t) =
     Some [Reconnecting (Finite 10) 1, Reconnecting (Finite 20) 2, Reconnecting (Finite 40) 3, Disconnected]"
    by code_simp
  from c 1 m 2 3 show ?thesis by (intro conjI)
qed

subsection \<open>C8: the \<^verbatim>\<open>logged\<close> notification\<close>

text \<open>
  C8, as stated, fails. The claim is that a record dropped with the overflow error gets no
  \<^verbatim>\<open>'logged'\<close> notification. With \<open>bufferMax = 1\<close> and the transport not connected,
  \<open>a\<close> is buffered and \<open>b\<close> is dropped with the overflow error; once the two immediates
  have run, \<^verbatim>\<open>'logged'\<close> has been emitted for \<open>a\<close> and for \<open>b\<close>.
\<close>

theorem C8_counterexample:
  "map_option buffer (run env_ok [Log ''a'', Log ''b''] (constructor env_ok opts1))
     = Some [''a'' @ EOL] \<and>
   map_option events (run env_ok [Log ''a'', Log ''b''] (constructor env_ok opts1))
     = Some [ErrorEvent BufferOverflow] \<and>
   map_option events
     (run env_ok [Log ''a'', Log ''b'', Immediate, Immediate] (constructor env_ok opts1))
     = Some [ErrorEvent BufferOverflow, Logged ''a'', Logged ''b'']"
  by code_simp

text \<open>
  C8, amended: \<^verbatim>\<open>'logged'\<close> is emitted for every record passed to \<^verbatim>\<open>log\<close>, whether it
  is written, buffered or dropped. In every reachable state the records of the
  \<^verbatim>\<open>'logged'\<close> events emitted so far, followed by those of the immediates still queued,
  are the records passed to \<^verbatim>\<open>log\<close>, in order; running the queued immediates emits
  the rest; and each \<^verbatim>\<open>log\<close> queues one immediate with its record and emits no
  \<^verbatim>\<open>'logged'\<close> itself.
\<close>

theorem C8_logged_for_every_log:
  assumes "run env ins (constructor env opts) = Some t"
  shows "loggedInfos (events t) @ immediates t = logInputs ins \<and>
         (\<exists>t'. run env (replicate (length (immediates t)) Immediate) t = Some t' \<and>
            loggedInfos (events t') = logInputs ins \<and> immediates t' = []) \<and>
         immediates (log env i t) = immediates t @ [i] \<and>
         loggedInfos (events (log env i t)) = loggedInfos (events t)"
proof -
  have a: "loggedInfos (events t) @ immediates t = logInputs ins"
    using run_logged[OF assms] by (simp add: constructor_facts)
  from run_immediates[of env t] obtain t' where
    r: "run env (replicate (length (immediates t)) Immediate) t = Some t'"
    and e: "events t' = events t @ map Logged (immediates t)" "immediates t' = []"
    by blast
  have "loggedInfos (events t') = logInputs ins"
    using a e by (simp add: loggedInfos_append loggedInfos_Logged)
  with r e have b: "\<exists>t'. run env (replicate (length (immediates t)) Immediate) t = Some t' \<and>
            loggedInfos (events t') = logInputs ins \<and> immediates t' = []"
    by blast
  have c: "immediates (log env i t) = immediates t @ [i]"
     "loggedInfos (events (log env i t)) = loggedInfos (events t)"
    by (simp_all add: log_def Let_def safeWrite_frame safeWrite_events emit_def loggedInfos_append)
  from a b c show ?thesis by (intro conjI)
qed

theorem C8_witness:
  "run env_ok [Log ''a'', Log ''b'', Immediate]  (constructor env_ok opts1) =
     Some (on_immediate (log env_ok ''b'' (log env_ok ''a'' (constructor env_ok opts1)))) \<and>
   buffer (on_immediate (log env_ok ''b'' (log env_ok ''a'' (constructor env_ok opts1))))
     = [''a'' @ EOL] \<and>
   loggedInfos (events (on_immediate (log env_ok ''b'' (log env_ok ''a'' (constructor env_ok opts1)))))
     = [''a''] \<and>
   immediates (on_immediate (log env_ok ''b'' (log env_ok ''a'' (constructor env_ok opts1))))
     = [''b'']"
proof -
  let ?t = "on_immediate (log env_ok ''b'' (log env_ok ''a'' (constructor env_ok opts1)))"
  have r: "run env_ok [Log ''a'', Log ''b'', Immediate]  (constructor env_ok opts1) = Some ?t"
    by simp
  have i: "immediates ?t = [''b'']" by code_simp
  have b: "buffer ?t = [''a'' @ EOL]" by code_simp
  from C8_logged_for_every_log[OF r, of "''c''"] i
  have "loggedInfos (events ?t) = [''a'']" by simp
  with r b i show ?thesis by (intro conjI)
qed

subsection \<open>C9: \<open>retryCount\<close> after a connection\<close>

text \<open>
  C9: when the listener of \<^verbatim>\<open>'connect'\<close> returns, the transport is connected and
  \<open>retryCount\<close> is \<open>0\<close>, so the next delay is \<open>min retryDelay maxBackoff\<close>: if the
  transport is not closing and \<open>maxRetries\<close> is not \<open>0\<close>, a \<^verbatim>\<open>'close'\<close> of the socket
  right afterwards emits \<^verbatim>\<open>'reconnecting'\<close> with that delay and attempt \<open>1\<close>. The
  listener does return if the writes stop throwing at some point.
\<close>

theorem C9_retryCount_reset:
  "(on_connect env t = Some t' \<longrightarrow>
      connected t' \<and> retryCount t' = 0 \<and>
      reconnect_delay t' = Finite (min (retryDelay t) (maxBackoff t)) \<and>
      (\<not> closing t \<and> maxRetries t \<noteq> 0 \<longrightarrow>
         events (on_close t') =
           events t' @ [Disconnected, Reconnecting (Finite (min (retryDelay t) (maxBackoff t))) 1])) \<and>
   ((\<forall>n\<ge>N. write_ok env n) \<longrightarrow> (\<exists>s. on_connect env t = Some s))"
proof -
  have A: "connected t' \<and> retryCount t' = 0 \<and>
      reconnect_delay t' = Finite (min (retryDelay t) (maxBackoff t)) \<and>
      (\<not> closing t \<and> maxRetries t \<noteq> 0 \<longrightarrow>
         events (on_close t') =
           events t' @ [Disconnected, Reconnecting (Finite (min (retryDelay t) (maxBackoff t))) 1])"
    if r: "on_connect env t = Some t'"
  proof -
    from on_connect_Some[OF r] obtain s where
      s: "flushLoop env (t\<lparr>connected := True, retryCount := 0, flushes := flushes t + 1\<rparr>) = Some s"
      and t': "t' = emit Connected s" by blast
    from flushLoop_frame[OF s]
    have f: "connected t'" "retryCount t' = 0" "retryDelay t' = retryDelay t"
      "maxBackoff t' = maxBackoff t" "closing t' = closing t" "maxRetries t' = maxRetries t"
      by (simp_all add: same_frame_def t' emit_def)
    have "events (on_close t') =
           events t' @ [Disconnected, Reconnecting (Finite (min (retryDelay t) (maxBackoff t))) 1]"
      if "\<not> closing t" "maxRetries t \<noteq> 0"
      using on_close_from_zero[of t'] that f by simp
    then show ?thesis using f reconnect_delay_zero[of t'] by simp
  qed
  have B: "\<exists>s. on_connect env t = Some s" if "\<forall>n\<ge>N. write_ok env n"
  proof -
    from flushLoop_terminates[OF that]
    obtain s where "flushLoop env (t\<lparr>connected := True, retryCount := 0, flushes := flushes t + 1\<rparr>) = Some s"
      by blast
    then show ?thesis by (simp add: on_connect_def flushBuffer_def)
  qed
  from A B show ?thesis by blast
qed

theorem C9_witness:
  "map_option retryCount
     (run env_once [SocketError, TimerFires, SocketError, TimerFires, Log ''a'']
        (constructor env_once opts2)) = Some 2 \<and>
   (\<exists>s. run env_once [SocketError, TimerFires, SocketError, TimerFires, Log ''a'', SocketConnect]
          (constructor env_once opts2) = Some s \<and>
        connected s \<and> retryCount s = 0 \<and> reconnect_delay s = Finite 10 \<and>
        events (on_close s) = events s @ [Disconnected, Reconnecting (Finite 10) 1])"
proof -
  let ?t = "log env_once ''a''
     (on_timer env_once (on_error (on_timer env_once (on_error (constructor env_once opts2)))))"
  have r: "run env_once [SocketError, TimerFires, SocketError, TimerFires, Log ''a'']
        (constructor env_once opts2) = Some ?t"
    by code_simp
  have f: "retryCount ?t = 2" "socket ?t \<noteq> None" "\<not> closing ?t" "maxRetries ?t = - 1"
    "retryDelay ?t = 10" "maxBackoff ?t = 30000"
    by code_simp+
  have w: "\<forall>n\<ge>1. write_ok env_once n" by (simp add: env_once_def)
  from C9_retryCount_reset[of env_once ?t _ 1] w obtain s where s: "on_connect env_once ?t = Some s"
    by blast
  from C9_retryCount_reset[of env_once ?t s 1] s f
  have "connected s \<and> retryCount s = 0 \<and> reconnect_delay s = Finite 10 \<and>
        events (on_close s) = events s @ [Disconnected, Reconnecting (Finite 10) 1]"
    by simp
  moreover have "run env_once [SocketError, TimerFires, SocketError, TimerFires, Log ''a'', SocketConnect]
          (constructor env_once opts2) = Some s"
    using r s f(2) run_append[of env_once "[SocketError, TimerFires, SocketError, TimerFires, Log ''a'']" "[SocketConnect]"]
    by auto
  moreover have "map_option retryCount
     (run env_once [SocketError, TimerFires, SocketError, TimerFires, Log ''a'']
        (constructor env_once opts2)) = Some 2"
    using r f(1) by simp
  ultimately show ?thesis by blast
qed

subsection \<open>C10: \<^verbatim>\<open>close\<close> and the buffer, \<^verbatim>\<open>log\<close> after \<^verbatim>\<open>close\<close>\<close>




end
